theory Spec2Isabelle
  imports Main "HOL-Library.Word"
begin

unbundle bit_operations_syntax

section \<open>Buffers and the errors of the program\<close>

text \<open>
  A Node.js \<open>Buffer\<close> is a sequence of bytes. JavaScript numbers are modelled as
  \<open>int\<close>: every number computed by the header parser is an integer below \<open>2 ^ 53\<close>,
  where double arithmetic is exact.
\<close>

type_synonym byte = "8 word"
type_synonym buffer = "byte list"

text \<open>
  Every failure of the program is a JavaScript exception or a rejected promise. The
  program itself throws \<open>Error\<close> objects that differ by their message only:
  \<^item> \<open>NotValidCRX\<close>: \<open>Error('Not a valid CRX file (missing "Cr24").')\<close>, the
    specification's FormatError;
  \<^item> \<open>UnsupportedCRXVersion v\<close>: \<open>Error(`Unsupported CRX version: ${version}`)\<close>,
    the specification's UnsupportedVersionError;
  \<^item> \<open>TooManyRedirects\<close>: \<open>Error("Too many redirects")\<close>;
  \<^item> \<open>DownloadFailed s\<close>: \<open>Error(`Download failed, final status code: ${statusCode}`)\<close>.
  The others come from the runtime: \<open>RangeError\<close> is what \<open>readUInt32LE\<close> throws
  when the four bytes do not lie inside the buffer, \<open>TypeError c\<close> is what \<open>https.get\<close>
  throws, with code \<open>c\<close>, on a URL or a header it refuses, \<open>NetworkError\<close> is the error
  event of the request, \<open>ENOENT\<close> is \<open>readFileSync\<close> on a path that does not exist.
\<close>

datatype error =
    NotValidCRX
  | UnsupportedCRXVersion int
  | RangeError
  | TypeError string
  | TooManyRedirects
  | DownloadFailed int
  | NetworkError string
  | ENOENT

subsection \<open>The Buffer methods the parser calls\<close>

text \<open>
  \<open>buffer.toString("ascii", start, end)\<close>: the bytes from \<open>start\<close> up to \<open>end\<close>
  (clamped to the buffer), each decoded with its highest bit cleared, as Node.js
  documents for the \<open>ascii\<close> encoding.
\<close>

definition toString_ascii :: "buffer \<Rightarrow> nat \<Rightarrow> nat \<Rightarrow> string" where
  "toString_ascii buf start end =
     map (\<lambda>b. char_of (unat (b AND 0x7F))) (take (end - start) (drop start buf))"

text \<open>
  \<open>buffer.readUInt32LE(offset)\<close>: throws unless \<open>offset + 3\<close> is an index of the
  buffer; otherwise \<open>first + b1 * 2 ** 8 + b2 * 2 ** 16 + last * 2 ** 24\<close>.
\<close>

definition readUInt32LE :: "buffer \<Rightarrow> nat \<Rightarrow> error + int" where
  "readUInt32LE buf offset =
     (if offset + 3 < length buf
      then Inr (uint (buf ! offset)
              + uint (buf ! (offset + 1)) * 2 ^ 8
              + uint (buf ! (offset + 2)) * 2 ^ 16
              + uint (buf ! (offset + 3)) * 2 ^ 24)
      else Inl RangeError)"

text \<open>
  \<open>buffer.slice(start)\<close>: a negative \<open>start\<close> counts from the end, and the start is
  clamped to the buffer, so a start beyond the end gives the empty buffer.
\<close>

definition buffer_slice :: "buffer \<Rightarrow> int \<Rightarrow> buffer" where
  "buffer_slice buf start =
     (if start < 0 then drop (nat (int (length buf) + start)) buf
      else drop (nat start) buf)"

section \<open>The header parser\<close>

definition getZipStartOffset :: "buffer \<Rightarrow> error + int" where
  "getZipStartOffset buf =
     (if toString_ascii buf 0 4 \<noteq> ''Cr24'' then Inl NotValidCRX
      else case readUInt32LE buf 4 of
        Inl e \<Rightarrow> Inl e
      | Inr version \<Rightarrow>
          if version = 2 then
            (case readUInt32LE buf 8 of
               Inl e \<Rightarrow> Inl e
             | Inr pubKeyLen \<Rightarrow>
                 (case readUInt32LE buf 12 of
                    Inl e \<Rightarrow> Inl e
                  | Inr sigLen \<Rightarrow> Inr (16 + pubKeyLen + sigLen)))
          else if version = 3 then
            (case readUInt32LE buf 8 of
               Inl e \<Rightarrow> Inl e
             | Inr headerSize \<Rightarrow> Inr (12 + headerSize))
          else Inl (UnsupportedCRXVersion version))"

section \<open>The redirect-following fetcher\<close>

text \<open>
  The options object passed to \<open>https.get\<close> holds the request headers. The response
  \<open>res\<close> has a status code, headers (Node.js gives them with lower-case names, one value
  for \<open>location\<close>) and a body, which is also the stream handed to the caller.
\<close>

record options =
  opt_headers :: "(string \<times> string) list"

record incoming_message =
  res_statusCode :: int
  res_headers :: "(string \<times> string) list"
  res_body :: buffer

text \<open>The object the promise resolves to: \<open>{ statusCode, headers, bodyStream: res }\<close>.\<close>

record fetch_result =
  statusCode :: int
  headers :: "(string \<times> string) list"
  bodyStream :: incoming_message

text \<open>
  \<open>https.get\<close> belongs to Node.js and the servers to the network, so both are parameters
  of the model.
  \<^item> \<open>throws url options\<close> is the synchronous part of \<open>https.get\<close>: before any request
    is made it throws a \<open>TypeError\<close> when the URL does not parse (code \<open>ERR_INVALID_URL\<close>,
    as for a relative URL), when its protocol is not \<open>https:\<close> (\<open>ERR_INVALID_PROTOCOL\<close>)
    or when a header name or value is malformed (\<open>ERR_INVALID_HTTP_TOKEN\<close>,
    \<open>ERR_INVALID_CHAR\<close>). It gives the code of the error, or \<open>None\<close> when the request
    is made.
  \<^item> \<open>answers history url options\<close> is what a request that is made ends with: the
    callback with a response, or the \<open>error\<close> event. It depends on the requests made
    so far, so a server may answer the same URL differently each time.
\<close>

datatype reply = Response incoming_message | ErrorEvent string

type_synonym request = "string \<times> options"

record https =
  throws :: "string \<Rightarrow> options \<Rightarrow> string option"
  answers :: "request list \<Rightarrow> string \<Rightarrow> options \<Rightarrow> reply"

text \<open>
  The world the program acts on: the requests made, in order; the responses whose
  body was discarded with \<open>resume()\<close>; and the files on disk.
\<close>

record world =
  requests :: "request list"
  resumed :: "incoming_message list"
  files :: "string \<rightharpoonup> buffer"

text \<open>A header value in a condition: \<open>undefined\<close> and the empty string are falsy.\<close>

fun truthy :: "string option \<Rightarrow> bool" where
  "truthy None = False"
| "truthy (Some s) = (s \<noteq> [])"

definition location :: "incoming_message \<Rightarrow> string option" where
  "location res = map_of (res_headers res) ''location''"

definition resume :: "incoming_message \<Rightarrow> world \<Rightarrow> world" where
  "resume res w = w\<lparr>resumed := resumed w @ [res]\<rparr>"

text \<open>
  \<open>https.get(url, options, callback)\<close>: a throw leaves the world as it is; otherwise the
  request is made and answered.
\<close>

definition get :: "https \<Rightarrow> string \<Rightarrow> options \<Rightarrow> world \<Rightarrow> (error + reply) \<times> world" where
  "get h url opts w =
     (case throws h url opts of
        Some code \<Rightarrow> (Inl (TypeError code), w)
      | None \<Rightarrow>
          (Inr (answers h (requests w) url opts),
           w\<lparr>requests := requests w @ [(url, opts)]\<rparr>))"

text \<open>
  \<open>maxRedirects\<close> is a JavaScript number, that is a double. The model covers the
  budgets that are integers. \<open>maxRedirects - 1\<close> is the difference rounded to the nearest
  double, ties to the even significand: exact up to \<open>2 ^ 53\<close>, where every integer is a
  double, and rounded beyond, where the doubles are the multiples of
  \<open>2 ^ (bit_length m - 53)\<close>.
\<close>

fun bit_length :: "nat \<Rightarrow> nat" where
  "bit_length n = (if n = 0 then 0 else Suc (bit_length (n div 2)))"

declare bit_length.simps [simp del]

definition round_double :: "int \<Rightarrow> int" where
  "round_double x =
     (let m = nat \<bar>x\<bar>;
          u = 2 ^ (bit_length m - 53);
          q = m div u;
          r = m mod u
      in sgn x * int ((if u < 2 * r \<or> (u = 2 * r \<and> odd q) then q + 1 else q) * u))"

definition js_minus :: "int \<Rightarrow> int \<Rightarrow> int" where
  "js_minus a b = round_double (a - b)"

text \<open>
  The budget is compared with \<open>=== 0\<close> and decremented, so a budget that never reaches 0
  is never used up. The function is therefore partial, and \<open>None\<close> stands for a promise
  that is never settled. A throw of \<open>https.get\<close> happens inside the executor of the
  promise, which rejects the promise with it.
\<close>

partial_function (option) fetchWithRedirect ::
  "https \<Rightarrow> string \<Rightarrow> options \<Rightarrow> int \<Rightarrow> world \<Rightarrow> ((error + fetch_result) \<times> world) option"
where
  "fetchWithRedirect h url opts maxRedirects w =
     (case get h url opts w of
        (Inl e, w1) \<Rightarrow> Some (Inl e, w1)
      | (Inr (ErrorEvent err), w1) \<Rightarrow> Some (Inl (NetworkError err), w1)
      | (Inr (Response res), w1) \<Rightarrow>
          if 300 \<le> res_statusCode res \<and> res_statusCode res < 400 \<and> truthy (location res)
          then if maxRedirects = 0
               then Some (Inl TooManyRedirects, resume res w1)
               else fetchWithRedirect h (the (location res)) opts (js_minus maxRedirects 1)
                      (resume res w1)
          else Some (Inr \<lparr>statusCode = res_statusCode res, headers = res_headers res,
                          bodyStream = res\<rparr>, w1))"

section \<open>Download and conversion\<close>

text \<open>
  \<open>downloadCRX\<close> builds the URL and the options, calls the fetcher with two arguments,
  so with the default budget 5, and pipes the body of a 200 response into the output
  file. The console output is left out, and the writes are taken to succeed.
\<close>

definition downloadCRX_url :: "string \<Rightarrow> string \<Rightarrow> string" where
  "downloadCRX_url extensionId chromeVersion =
     ''https://clients2.google.com/service/update2/crx?response=redirect&prodversion=''
     @ chromeVersion @ ''&acceptformat=crx2,crx3&x=id%3D'' @ extensionId @ ''%26uc''"

definition downloadCRX_options :: "string \<Rightarrow> options" where
  "downloadCRX_options chromeVersion =
     \<lparr>opt_headers =
        [(''User-Agent'',
          ''Mozilla/5.0 (Windows NT 10.0; Win64; x64) AppleWebKit/537.36 (KHTML, like Gecko) Chrome/''
          @ chromeVersion @ '' Safari/537.36''),
         (''Accept'', ''*/*'')]\<rparr>"

definition downloadCRX ::
  "https \<Rightarrow> string \<Rightarrow> string \<Rightarrow> string \<Rightarrow> world \<Rightarrow> ((error + unit) \<times> world) option"
where
  "downloadCRX h extensionId chromeVersion outputFilename w =
     (let url = downloadCRX_url extensionId chromeVersion;
          opts = downloadCRX_options chromeVersion
      in case fetchWithRedirect h url opts 5 w of
           None \<Rightarrow> None
         | Some (Inl e, w1) \<Rightarrow> Some (Inl e, w1)
         | Some (Inr r, w1) \<Rightarrow>
             if statusCode r \<noteq> 200
             then Some (Inl (DownloadFailed (statusCode r)), resume (bodyStream r) w1)
             else Some (Inr (),
                        w1\<lparr>files := (files w1)(outputFilename \<mapsto> res_body (bodyStream r))\<rparr>))"

definition convertCRXtoZIP :: "string \<Rightarrow> string \<Rightarrow> world \<Rightarrow> (error + unit) \<times> world" where
  "convertCRXtoZIP crxPath zipPath w =
     (case files w crxPath of
        None \<Rightarrow> (Inl ENOENT, w)
      | Some buf \<Rightarrow>
          (case getZipStartOffset buf of
             Inl e \<Rightarrow> (Inl e, w)
           | Inr zipOffset \<Rightarrow>
               (Inr (), w\<lparr>files := (files w)(zipPath \<mapsto> buffer_slice buf zipOffset)\<rparr>)))"

section \<open>Synthetic containers\<close>

text \<open>
  The buffers of the round-trip properties: the magic tag, and a length written as four
  little-endian bytes.
\<close>

definition magic :: buffer where
  "magic = [0x43, 0x72, 0x32, 0x34]"

definition LE32 :: "nat \<Rightarrow> buffer" where
  "LE32 n = [of_nat n, of_nat (n div 2 ^ 8), of_nat (n div 2 ^ 16), of_nat (n div 2 ^ 24)]"

section \<open>Redirect chains\<close>

text \<open>
  A chain of requests is the sequence of its URLs, \<open>u 0\<close>, \<open>u 1\<close>, and so on, all made with
  the same options after the requests of \<open>history\<close>. The request number \<open>i\<close> of the chain
  is redirected when \<open>https.get\<close> makes it and the answer is a 3xx response whose
  location header is the next URL of the chain.
\<close>

definition chain_requests :: "options \<Rightarrow> (nat \<Rightarrow> string) \<Rightarrow> nat \<Rightarrow> request list" where
  "chain_requests opts u n = map (\<lambda>j. (u j, opts)) [0..<n]"

definition redirected :: "https \<Rightarrow> options \<Rightarrow> request list \<Rightarrow> (nat \<Rightarrow> string) \<Rightarrow> nat \<Rightarrow> bool" where
  "redirected h opts history u i =
     (throws h (u i) opts = None \<and>
      (case answers h (history @ chain_requests opts u i) (u i) opts of
         Response res \<Rightarrow>
           300 \<le> res_statusCode res \<and> res_statusCode res < 400
           \<and> u (Suc i) \<noteq> [] \<and> location res = Some (u (Suc i))
       | ErrorEvent err \<Rightarrow> False))"

text \<open>
  The budget that the call number \<open>i\<close> of a chain receives: the budget of the first
  call, decremented \<open>i\<close> times.
\<close>

definition budget_after :: "int \<Rightarrow> nat \<Rightarrow> int" where
  "budget_after maxRedirects i = ((\<lambda>b. js_minus b 1) ^^ i) maxRedirects"

section \<open>Mock servers\<close>

text \<open>
  The servers of the redirect scenarios. All of them refuse, as \<open>https.get\<close> does for a
  relative URL, a URL that does not start with \<open>https://\<close>. The first answers every
  request with a 302 and an absolute location; the second answers every request with a
  302 and the relative location \<open>/loop\<close>; the third sends two URLs to each other and
  answers any other URL with a 200; the fourth answers the first two requests with a 302
  and every later one with a 200 that carries a body; the last answers the first request
  with a 302 and every later one with a 404.
\<close>

definition empty_world :: world where
  "empty_world = \<lparr>requests = [], resumed = [], files = Map.empty\<rparr>"

definition https_only :: "string \<Rightarrow> options \<Rightarrow> string option" where
  "https_only url opts = (if take 8 url = ''https://'' then None else Some ''ERR_INVALID_URL'')"

definition redirect_loop_server :: https where
  "redirect_loop_server =
     \<lparr>throws = https_only,
      answers = (\<lambda>history url opts.
        Response \<lparr>res_statusCode = 302,
                  res_headers = [(''location'', ''https://loop.example/crx'')],
                  res_body = []\<rparr>)\<rparr>"

definition relative_loop_server :: https where
  "relative_loop_server =
     \<lparr>throws = https_only,
      answers = (\<lambda>history url opts.
        Response \<lparr>res_statusCode = 302,
                  res_headers = [(''location'', ''/loop'')],
                  res_body = []\<rparr>)\<rparr>"

definition ping_pong_server :: https where
  "ping_pong_server =
     \<lparr>throws = https_only,
      answers = (\<lambda>history url opts.
        if url = ''https://a.example/''
        then Response \<lparr>res_statusCode = 301,
                       res_headers = [(''location'', ''https://b.example/'')],
                       res_body = []\<rparr>
        else if url = ''https://b.example/''
        then Response \<lparr>res_statusCode = 307,
                       res_headers = [(''location'', ''https://a.example/'')],
                       res_body = []\<rparr>
        else Response \<lparr>res_statusCode = 200, res_headers = [], res_body = []\<rparr>)\<rparr>"

definition two_hop_server :: https where
  "two_hop_server =
     \<lparr>throws = https_only,
      answers = (\<lambda>history url opts.
        if length history < 2
        then Response \<lparr>res_statusCode = 302,
                       res_headers = [(''location'', ''https://cdn.example/signed'')],
                       res_body = []\<rparr>
        else Response \<lparr>res_statusCode = 200,
                       res_headers = [(''content-type'', ''application/x-chrome-extension'')],
                       res_body = [0x43, 0x72, 0x32, 0x34]\<rparr>)\<rparr>"

definition not_found_server :: https where
  "not_found_server =
     \<lparr>throws = https_only,
      answers = (\<lambda>history url opts.
        if length history < 1
        then Response \<lparr>res_statusCode = 302,
                       res_headers = [(''location'', ''https://cdn.example/gone'')],
                       res_body = []\<rparr>
        else Response \<lparr>res_statusCode = 404,
                       res_headers = [(''content-type'', ''text/html'')],
                       res_body = [0x3C]\<rparr>)\<rparr>"

section \<open>Facts about the Buffer methods\<close>

lemma uint_byte: "uint (of_nat n :: 8 word) = int (n mod 256)"
  by (simp add: uint_nat unat_of_nat)

lemma le32_sum:
  fixes n :: nat
  assumes "n < 2 ^ 32"
  shows "n mod 256 + (n div 2 ^ 8 mod 256) * 2 ^ 8 + (n div 2 ^ 16 mod 256) * 2 ^ 16
   + (n div 2 ^ 24 mod 256) * 2 ^ 24 = n"
proof -
  define q1 q2 q3 where "q1 = n div 256" and "q2 = q1 div 256" and "q3 = q2 div 256"
  define r0 r1 r2 where "r0 = n mod 256" and "r1 = q1 mod 256" and "r2 = q2 mod 256"
  have a: "n div 2 ^ 8 = q1" "n div 2 ^ 16 = q2" "n div 2 ^ 24 = q3"
    by (simp_all add: q1_def q2_def q3_def div_mult2_eq[symmetric])
  have b: "q3 mod 256 = q3" using assms unfolding a(3)[symmetric] by simp
  have c: "n = r0 + 256 * q1" "q1 = r1 + 256 * q2" "q2 = r2 + 256 * q3"
    by (simp_all add: q1_def q2_def q3_def r0_def r1_def r2_def)
  have "r0 + r1 * 256 + r2 * 65536 + q3 * 16777216 = n"
    using c by linarith
  then show ?thesis unfolding a b r0_def r1_def r2_def by simp
qed

lemma length_LE32 [simp]: "length (LE32 n) = 4"
  by (simp add: LE32_def)

lemma length_magic [simp]: "length magic = 4"
  by (simp add: magic_def)

lemma readUInt32LE_LE32:
  "n < 2 ^ 32 \<Longrightarrow> length pre = k \<Longrightarrow> readUInt32LE (pre @ LE32 n @ post) k = Inr (int n)"
  using le32_sum[of n, THEN arg_cong, of int]
  by (simp add: readUInt32LE_def LE32_def nth_append uint_byte)

lemma uint_byte_range: "0 \<le> uint (b :: 8 word) \<and> uint b \<le> 255"
proof -
  have "uint b < 2 ^ LENGTH(8)" by (rule uint_bounded)
  then show ?thesis by simp
qed

lemma readUInt32LE_range: "readUInt32LE buf k = Inr v \<Longrightarrow> 0 \<le> v \<and> v \<le> 2 ^ 32 - 1"
  using uint_byte_range[of "buf ! k"] uint_byte_range[of "buf ! (k+1)"] 
     uint_byte_range[of "buf ! (k+2)"] uint_byte_range[of "buf ! (k+3)"]
    by (auto simp: readUInt32LE_def split: if_splits)

lemma readUInt32LE_Inr_iff: "(\<exists>v. readUInt32LE buf k = Inr v) \<longleftrightarrow> k + 4 \<le> length buf"
  by (auto simp: readUInt32LE_def)

lemma readUInt32LE_Inl: "readUInt32LE buf k = Inl e \<Longrightarrow> e = RangeError \<and> length buf < k + 4"
  by (auto simp: readUInt32LE_def split: if_splits)

lemma readUInt32LE_short: "length buf < k + 4 \<Longrightarrow> readUInt32LE buf k = Inl RangeError"
  by (auto simp: readUInt32LE_def split: if_splits)

lemma toString_ascii_magic: "take 4 buf = magic \<Longrightarrow> toString_ascii buf 0 4 = ''Cr24''"
  by (simp add: toString_ascii_def magic_def char_of_eq_iff)

lemma toString_ascii_length: "length (toString_ascii buf 0 4) = min 4 (length buf)"
  by (simp add: toString_ascii_def)

lemma toString_ascii_short: "length buf < 4 \<Longrightarrow> toString_ascii buf 0 4 \<noteq> ''Cr24''"
  using toString_ascii_length[of buf] by auto

lemma inj_char_of_byte: "inj (\<lambda>b :: 8 word. char_of (unat b))"
proof (rule injI)
  fix a b :: "8 word"
  assume "char_of (unat a) = char_of (unat b)"
  then have "unat a mod 256 = unat b mod 256" by simp
  moreover have "unat a < 2 ^ LENGTH(8)" "unat b < 2 ^ LENGTH(8)"
    by (rule unsigned_less)+
  ultimately have "unat a = unat b" by simp
  then show "a = b" by (simp add: word_unat_eq_iff)
qed

lemma toString_ascii_Cr24_iff:
  "toString_ascii buf 0 4 = ''Cr24'' \<longleftrightarrow> map (\<lambda>b. b AND 0x7F) (take 4 buf) = magic"
proof -
  have l: "toString_ascii buf 0 4
             = map (\<lambda>b. char_of (unat b)) (map (\<lambda>b. b AND 0x7F) (take 4 buf))"
    by (simp add: toString_ascii_def)
  have "map (\<lambda>b :: 8 word. char_of (unat b)) magic = ''Cr24''"
    by (simp add: magic_def char_of_eq_iff)
  then have r: "''Cr24'' = map (\<lambda>b :: 8 word. char_of (unat b)) magic"
    by (rule sym)
  show ?thesis
    unfolding l r by (rule inj_map_eq_map [OF inj_char_of_byte])
qed

lemma buffer_slice_append: "buffer_slice (pre @ post) (int (length pre)) = post"
  by (simp add: buffer_slice_def)

section \<open>The header parser: magic tag\<close>

text \<open>Once the magic check has passed, the parser is the dispatch on the version field.\<close>

lemma getZipStartOffset_accepted:
  "toString_ascii buf 0 4 = ''Cr24'' \<Longrightarrow>
   getZipStartOffset buf =
     (case readUInt32LE buf 4 of
        Inl e \<Rightarrow> Inl e
      | Inr version \<Rightarrow>
          if version = 2 then
            (case readUInt32LE buf 8 of
               Inl e \<Rightarrow> Inl e
             | Inr pubKeyLen \<Rightarrow>
                 (case readUInt32LE buf 12 of
                    Inl e \<Rightarrow> Inl e
                  | Inr sigLen \<Rightarrow> Inr (16 + pubKeyLen + sigLen)))
          else if version = 3 then
            (case readUInt32LE buf 8 of
               Inl e \<Rightarrow> Inl e
             | Inr headerSize \<Rightarrow> Inr (12 + headerSize))
          else Inl (UnsupportedCRXVersion version))"
  by (simp add: getZipStartOffset_def)

text \<open>
  The magic check compares the decoded string, so it sees each of the first four bytes
  with its highest bit cleared. A buffer shorter than four bytes is rejected, and so is
  every buffer whose first four bytes differ from the tag in the low seven bits.
\<close>

lemma getZipStartOffset_rejects_magic:
  "map (\<lambda>b. b AND 0x7F) (take 4 buf) \<noteq> magic \<Longrightarrow> getZipStartOffset buf = Inl NotValidCRX"
  by (simp add: getZipStartOffset_def toString_ascii_Cr24_iff)

lemma getZipStartOffset_rejects_short:
  "length buf < 4 \<Longrightarrow> getZipStartOffset buf = Inl NotValidCRX"
  by (simp add: getZipStartOffset_def toString_ascii_short)

text \<open>
  Claim C7: every buffer that is shorter than 4 bytes or whose first 4 bytes are not the
  tag \<open>Cr24\<close> is rejected with the error of an invalid file. The code comments the check
  with "Must start with Cr24", but the \<open>ascii\<close> decoding drops the highest bit of every
  byte: the buffer below starts with \<open>0xC3\<close> instead of \<open>0x43\<close>, so its first four bytes
  are not the tag, and it is accepted and parsed as a version-3 container with offset 12.
\<close>

theorem getZipStartOffset_accepts_high_bit_magic:
  "take 4 [0xC3, 0x72, 0x32, 0x34, 3, 0, 0, 0, 0, 0, 0, 0 :: byte] \<noteq> magic
   \<and> getZipStartOffset [0xC3, 0x72, 0x32, 0x34, 3, 0, 0, 0, 0, 0, 0, 0] = Inr 12"
  by (simp add: getZipStartOffset_def toString_ascii_def readUInt32LE_def magic_def
        char_of_eq_iff)

section \<open>The header parser: version dispatch and fixed fields\<close>

text \<open>
  Claim C8: for every buffer whose first 4 bytes are \<open>Cr24\<close> and whose version field
  (the little-endian unsigned 32-bit value at offset 4) is neither 2 nor 3, the parser
  fails with the unsupported-version error, which carries the version read.
\<close>

theorem getZipStartOffset_unsupported_version:
  assumes "take 4 buf = magic" and "readUInt32LE buf 4 = Inr version"
    and "version \<noteq> 2" and "version \<noteq> 3"
  shows "getZipStartOffset buf = Inl (UnsupportedCRXVersion version)"
  using assms by (simp add: getZipStartOffset_accepted[OF toString_ascii_magic])

theorem getZipStartOffset_unsupported_version_witness:
  "getZipStartOffset [0x43, 0x72, 0x32, 0x34, 0, 0, 0, 0] = Inl (UnsupportedCRXVersion 0)
   \<and> getZipStartOffset [0x43, 0x72, 0x32, 0x34, 1, 0, 0, 0] = Inl (UnsupportedCRXVersion 1)
   \<and> getZipStartOffset [0x43, 0x72, 0x32, 0x34, 4, 0, 0, 0, 9] = Inl (UnsupportedCRXVersion 4)
   \<and> getZipStartOffset [0x43, 0x72, 0x32, 0x34, 0xFF, 0xFF, 0xFF, 0xFF]
       = Inl (UnsupportedCRXVersion 4294967295)"
  using getZipStartOffset_unsupported_version[of "[0x43, 0x72, 0x32, 0x34, 0, 0, 0, 0]" 0]
    getZipStartOffset_unsupported_version[of "[0x43, 0x72, 0x32, 0x34, 1, 0, 0, 0]" 1]
    getZipStartOffset_unsupported_version[of "[0x43, 0x72, 0x32, 0x34, 4, 0, 0, 0, 9]" 4]
    getZipStartOffset_unsupported_version
      [of "[0x43, 0x72, 0x32, 0x34, 0xFF, 0xFF, 0xFF, 0xFF]" 4294967295]
  by (simp add: magic_def readUInt32LE_def)

text \<open>
  Claim C10: for every buffer whose first 4 bytes are \<open>Cr24\<close> but which is too short for
  the fixed fields that are read (shorter than 8 bytes for the version field, shorter than
  16 for the two length fields of version 2, shorter than 12 for the header size of
  version 3), the parser throws the out-of-bounds error of \<open>readUInt32LE\<close> and returns no
  offset.
\<close>

theorem getZipStartOffset_truncated_header:
  assumes "take 4 buf = magic"
    and "length buf < 8
         \<or> readUInt32LE buf 4 = Inr 2 \<and> length buf < 16
         \<or> readUInt32LE buf 4 = Inr 3 \<and> length buf < 12"
  shows "getZipStartOffset buf = Inl RangeError"
proof -
  note acc = getZipStartOffset_accepted[OF toString_ascii_magic[OF assms(1)]]
  from assms(2) consider "length buf < 8"
    | "readUInt32LE buf 4 = Inr 2" "length buf < 16"
    | "readUInt32LE buf 4 = Inr 3" "length buf < 12" by blast
  then show ?thesis
  proof cases
    case 1
    then show ?thesis by (simp add: acc readUInt32LE_short)
  next
    case 2
    then show ?thesis
      by (auto simp: acc readUInt32LE_short split: sum.splits dest: readUInt32LE_Inl)
  next
    case 3
    then show ?thesis by (simp add: acc readUInt32LE_short)
  qed
qed

theorem getZipStartOffset_truncated_header_witness:
  "getZipStartOffset [0x43, 0x72, 0x32, 0x34] = Inl RangeError
   \<and> getZipStartOffset [0x43, 0x72, 0x32, 0x34, 2, 0, 0, 0, 1, 0, 0, 0, 0, 0, 0] = Inl RangeError
   \<and> getZipStartOffset [0x43, 0x72, 0x32, 0x34, 3, 0, 0, 0, 1, 0, 0] = Inl RangeError"
  using getZipStartOffset_truncated_header[of "[0x43, 0x72, 0x32, 0x34]"]
    getZipStartOffset_truncated_header
      [of "[0x43, 0x72, 0x32, 0x34, 2, 0, 0, 0, 1, 0, 0, 0, 0, 0, 0]"]
    getZipStartOffset_truncated_header[of "[0x43, 0x72, 0x32, 0x34, 3, 0, 0, 0, 1, 0, 0]"]
  by (simp add: magic_def readUInt32LE_def)

section \<open>The header parser: the offset\<close>

text \<open>
  Claim C9: whenever the parser returns an offset, the offset is at least 12, at least 16
  for a version-2 buffer and at least 12 for a version-3 buffer, because the length fields
  are read as unsigned values; in particular it is never negative.
\<close>

theorem getZipStartOffset_lower_bound:
  assumes "getZipStartOffset buf = Inr off"
  shows "0 \<le> off \<and> 12 \<le> off
         \<and> (readUInt32LE buf 4 = Inr 2 \<longrightarrow> 16 \<le> off)
         \<and> (readUInt32LE buf 4 = Inr 3 \<longrightarrow> 12 \<le> off)"
  using assms
  by (auto simp: getZipStartOffset_def split: if_splits sum.splits dest!: readUInt32LE_range)

theorem getZipStartOffset_lower_bound_witness:
  "getZipStartOffset [0x43, 0x72, 0x32, 0x34, 3, 0, 0, 0, 0, 0, 0, 0] = Inr 12
   \<and> getZipStartOffset [0x43, 0x72, 0x32, 0x34, 2, 0, 0, 0, 0, 0, 0, 0, 0, 0, 0, 0] = Inr 16
   \<and> (0::int) \<le> 12 \<and> (16::int) \<le> 16"
proof -
  have a: "getZipStartOffset [0x43, 0x72, 0x32, 0x34, 3, 0, 0, 0, 0, 0, 0, 0] = Inr 12"
    by (simp add: getZipStartOffset_def toString_ascii_def readUInt32LE_def char_of_eq_iff)
  have b: "getZipStartOffset [0x43, 0x72, 0x32, 0x34, 2, 0, 0, 0, 0, 0, 0, 0, 0, 0, 0, 0] = Inr 16"
    by (simp add: getZipStartOffset_def toString_ascii_def readUInt32LE_def char_of_eq_iff)
  from getZipStartOffset_lower_bound[OF a] getZipStartOffset_lower_bound[OF b] a b
  show ?thesis by simp
qed

text \<open>
  Claim C1, as stated: the declared lengths are checked against the size of the buffer,
  an offset beyond the end is an error, and every offset returned lies between 0 and the
  length of the buffer. The parser has no such check: a 12-byte version-3 buffer that
  declares a header of 100 bytes gets the offset 112.
\<close>

theorem getZipStartOffset_beyond_end:
  "getZipStartOffset [0x43, 0x72, 0x32, 0x34, 3, 0, 0, 0, 100, 0, 0, 0] = Inr 112
   \<and> \<not> 112 \<le> int (length [0x43, 0x72, 0x32, 0x34, 3, 0, 0, 0, 100, 0, 0, 0 :: byte])"
  by (simp add: getZipStartOffset_def toString_ascii_def readUInt32LE_def char_of_eq_iff)

text \<open>
  Claim C1, amended: for every buffer that passes the magic check, has version 2 or 3 and
  holds the fixed length fields, the parser returns the offset computed from the declared
  lengths, \<open>16 + a + b\<close> or \<open>12 + a\<close>, whatever the size of the buffer; the offset is at
  least 0 and at most \<open>16 + 2 * (2 ^ 32 - 1)\<close>, and no bound by the length of the buffer
  holds.
\<close>

theorem getZipStartOffset_lengths_unchecked:
  assumes "toString_ascii buf 0 4 = ''Cr24''"
    and "readUInt32LE buf 4 = Inr version"
    and "version = 2 \<and> 16 \<le> length buf \<or> version = 3 \<and> 12 \<le> length buf"
  shows "\<exists>a b. readUInt32LE buf 8 = Inr a
           \<and> (version = 2 \<longrightarrow> readUInt32LE buf 12 = Inr b)
           \<and> getZipStartOffset buf = Inr (if version = 2 then 16 + a + b else 12 + a)
           \<and> 0 \<le> (if version = 2 then 16 + a + b else 12 + a)
           \<and> (if version = 2 then 16 + a + b else 12 + a) \<le> 16 + 2 * (2 ^ 32 - 1)"
proof -
  from assms(3) have "8 + 4 \<le> length buf" by auto
  then obtain a where a: "readUInt32LE buf 8 = Inr a"
    using readUInt32LE_Inr_iff[of buf 8] by blast
  show ?thesis
  proof (cases "version = 2")
    case True
    with assms(3) have "12 + 4 \<le> length buf" by auto
    then obtain b where b: "readUInt32LE buf 12 = Inr b"
      using readUInt32LE_Inr_iff[of buf 12] by blast
    from readUInt32LE_range[OF a] readUInt32LE_range[OF b] True a b assms(2)
    show ?thesis
      by (simp add: getZipStartOffset_accepted[OF assms(1)])
  next
    case False
    with assms(3) have "version = 3" by auto
    with readUInt32LE_range[OF a] a assms(2)
    show ?thesis
      by (simp add: getZipStartOffset_accepted[OF assms(1)])
  qed
qed

theorem getZipStartOffset_lengths_unchecked_witness:
  "readUInt32LE [0x43, 0x72, 0x32, 0x34, 3, 0, 0, 0, 100, 0, 0, 0] 8 = Inr 100
   \<and> getZipStartOffset [0x43, 0x72, 0x32, 0x34, 3, 0, 0, 0, 100, 0, 0, 0] = Inr 112
   \<and> length [0x43, 0x72, 0x32, 0x34, 3, 0, 0, 0, 100, 0, 0, 0 :: byte] = 12"
  using getZipStartOffset_lengths_unchecked
    [of "[0x43, 0x72, 0x32, 0x34, 3, 0, 0, 0, 100, 0, 0, 0]" 3]
  by (simp add: toString_ascii_def char_of_eq_iff readUInt32LE_def)

section \<open>Round trips\<close>

text \<open>
  Claim C2: for every buffer built as the tag, \<open>LE32 2\<close>, \<open>LE32 pubLen\<close>, \<open>LE32 sigLen\<close>,
  the public key of \<open>pubLen\<close> bytes, the signature of \<open>sigLen\<close> bytes and the payload,
  the parser returns \<open>16 + pubLen + sigLen\<close>, and the slice of the buffer from that
  offset is the payload. The two lengths fit the four bytes they are written in.
\<close>

theorem getZipStartOffset_v2_roundtrip:
  assumes "length pubKeyBytes = pubLen" and "length sigBytes = sigLen"
    and "pubLen < 2 ^ 32" and "sigLen < 2 ^ 32"
  shows "getZipStartOffset
           (magic @ LE32 2 @ LE32 pubLen @ LE32 sigLen @ pubKeyBytes @ sigBytes @ payload)
           = Inr (16 + int pubLen + int sigLen)
         \<and> buffer_slice (magic @ LE32 2 @ LE32 pubLen @ LE32 sigLen @ pubKeyBytes @ sigBytes @ payload)
             (16 + int pubLen + int sigLen) = payload"
proof -
  let ?tail = "pubKeyBytes @ sigBytes @ payload"
  let ?buf = "magic @ LE32 2 @ LE32 pubLen @ LE32 sigLen @ ?tail"
  have m: "toString_ascii ?buf 0 4 = ''Cr24''"
    by (rule toString_ascii_magic) simp
  have v: "readUInt32LE ?buf 4 = Inr 2"
    using readUInt32LE_LE32[of 2 magic 4 "LE32 pubLen @ LE32 sigLen @ ?tail"] by simp
  have a: "readUInt32LE ?buf 8 = Inr (int pubLen)"
    using readUInt32LE_LE32[of pubLen "magic @ LE32 2" 8 "LE32 sigLen @ ?tail"] assms(3)
    by simp
  have b: "readUInt32LE ?buf 12 = Inr (int sigLen)"
    using readUInt32LE_LE32[of sigLen "magic @ LE32 2 @ LE32 pubLen" 12 ?tail] assms(4)
    by simp
  have off: "getZipStartOffset ?buf = Inr (16 + int pubLen + int sigLen)"
    by (simp add: getZipStartOffset_accepted[OF m] v a b)
  have len: "int (length (magic @ LE32 2 @ LE32 pubLen @ LE32 sigLen @ pubKeyBytes @ sigBytes))
               = 16 + int pubLen + int sigLen"
    using assms(1,2) by simp
  have "buffer_slice ?buf (16 + int pubLen + int sigLen) = payload"
    using buffer_slice_append[of "magic @ LE32 2 @ LE32 pubLen @ LE32 sigLen @ pubKeyBytes @ sigBytes"
        payload]
    unfolding len by (simp only: append_assoc)
  with off show ?thesis by simp
qed

theorem getZipStartOffset_v2_roundtrip_witness:
  "getZipStartOffset (magic @ LE32 2 @ LE32 2 @ LE32 1 @ [0xAA, 0xBB] @ [0xCC] @ [0x50, 0x4B, 3, 4])
     = Inr 19
   \<and> buffer_slice (magic @ LE32 2 @ LE32 2 @ LE32 1 @ [0xAA, 0xBB] @ [0xCC] @ [0x50, 0x4B, 3, 4]) 19
     = [0x50, 0x4B, 3, 4]"
  using getZipStartOffset_v2_roundtrip[of "[0xAA, 0xBB]" 2 "[0xCC]" 1 "[0x50, 0x4B, 3, 4]"]
  by simp

text \<open>
  Claim C3: for every buffer built as the tag, \<open>LE32 3\<close>, \<open>LE32 headerSize\<close>, the header
  of \<open>headerSize\<close> bytes and the payload, the parser returns \<open>12 + headerSize\<close>, and the
  slice of the buffer from that offset is the payload.
\<close>

theorem getZipStartOffset_v3_roundtrip:
  assumes "length headerBytes = headerSize" and "headerSize < 2 ^ 32"
  shows "getZipStartOffset (magic @ LE32 3 @ LE32 headerSize @ headerBytes @ payload)
           = Inr (12 + int headerSize)
         \<and> buffer_slice (magic @ LE32 3 @ LE32 headerSize @ headerBytes @ payload)
             (12 + int headerSize) = payload"
proof -
  let ?buf = "magic @ LE32 3 @ LE32 headerSize @ headerBytes @ payload"
  have m: "toString_ascii ?buf 0 4 = ''Cr24''"
    by (rule toString_ascii_magic) simp
  have v: "readUInt32LE ?buf 4 = Inr 3"
    using readUInt32LE_LE32[of 3 magic 4 "LE32 headerSize @ headerBytes @ payload"] by simp
  have a: "readUInt32LE ?buf 8 = Inr (int headerSize)"
    using readUInt32LE_LE32[of headerSize "magic @ LE32 3" 8 "headerBytes @ payload"] assms(2)
    by simp
  have off: "getZipStartOffset ?buf = Inr (12 + int headerSize)"
    by (simp add: getZipStartOffset_accepted[OF m] v a)
  have len: "int (length (magic @ LE32 3 @ LE32 headerSize @ headerBytes)) = 12 + int headerSize"
    using assms(1) by simp
  have "buffer_slice ?buf (12 + int headerSize) = payload"
    using buffer_slice_append[of "magic @ LE32 3 @ LE32 headerSize @ headerBytes" payload]
    unfolding len by (simp only: append_assoc)
  with off show ?thesis by simp
qed

theorem getZipStartOffset_v3_roundtrip_witness:
  "getZipStartOffset (magic @ LE32 3 @ LE32 3 @ [1, 2, 3] @ [0x50, 0x4B, 3, 4]) = Inr 15
   \<and> buffer_slice (magic @ LE32 3 @ LE32 3 @ [1, 2, 3] @ [0x50, 0x4B, 3, 4]) 15
     = [0x50, 0x4B, 3, 4]"
  using getZipStartOffset_v3_roundtrip[of "[1, 2, 3]" 3 "[0x50, 0x4B, 3, 4]"] by simp

section \<open>The fetcher\<close>

text \<open>Up to \<open>2 ^ 53\<close> in magnitude every integer is a double, and the decrement is exact.\<close>

lemma bit_length_le: "m < 2 ^ k \<Longrightarrow> bit_length m \<le> k"
proof (induction k arbitrary: m)
  case 0
  then have "m = 0" by simp
  then show ?case by (subst bit_length.simps) simp
next
  case (Suc k)
  from Suc.prems have "m div 2 < 2 ^ k" by simp
  from Suc.IH[OF this] show ?case by (subst bit_length.simps) simp
qed

lemma round_double_exact: "\<bar>x\<bar> < 2 ^ 53 \<Longrightarrow> round_double x = x"
proof -
  assume a: "\<bar>x\<bar> < 2 ^ 53"
  then have "nat \<bar>x\<bar> < 2 ^ 53" by simp
  then have e: "bit_length (nat \<bar>x\<bar>) - 53 = 0"
    using bit_length_le[of "nat \<bar>x\<bar>" 53] by simp
  have "round_double x = sgn x * int (nat \<bar>x\<bar>)"
    unfolding round_double_def Let_def e by simp
  also have "\<dots> = x" by (simp add: sgn_if)
  finally show ?thesis .
qed

lemma js_minus_one: "0 \<le> n \<Longrightarrow> n \<le> 2 ^ 53 \<Longrightarrow> js_minus n 1 = n - 1"
  unfolding js_minus_def by (rule round_double_exact) simp

text \<open>The bit length of a numeral, for evaluating the rounding beyond \<open>2 ^ 53\<close>.\<close>

lemma bit_length_0: "bit_length 0 = 0"
  by (subst bit_length.simps) simp

lemma bit_length_1: "bit_length (Suc 0) = Suc 0"
  by (subst bit_length.simps) (simp add: bit_length_0)

lemma bit_length_Bit0: "bit_length (numeral (Num.Bit0 k)) = Suc (bit_length (numeral k))"
  by (subst bit_length.simps) simp

lemma bit_length_Bit1: "bit_length (numeral (Num.Bit1 k)) = Suc (bit_length (numeral k))"
  by (subst bit_length.simps) simp

lemma bit_length_One: "bit_length (numeral Num.One) = Suc 0"
  by (simp add: bit_length_1)

lemmas bit_length_numeral =
  bit_length_0 bit_length_1 bit_length_Bit0 bit_length_Bit1 bit_length_One

text \<open>A chain seen from its second request.\<close>

lemma chain_requests_Suc:
  "chain_requests opts u (Suc n) = (u 0, opts) # chain_requests opts (\<lambda>j. u (Suc j)) n"
  by (simp add: chain_requests_def map_upt_Suc del: upt_Suc)

lemma chain_requests_0 [simp]: "chain_requests opts u 0 = []"
  by (simp add: chain_requests_def)

lemma redirected_Suc:
  "redirected h opts history u (Suc i)
     = redirected h opts (history @ [(u 0, opts)]) (\<lambda>j. u (Suc j)) i"
  by (simp add: redirected_def chain_requests_Suc)

text \<open>A request that is redirected, with budget left, is followed by the next call.\<close>

lemma redirected_step:
  assumes "redirected h opts (requests w) u 0" and "maxRedirects \<noteq> 0"
  shows "\<exists>res. fetchWithRedirect h (u 0) opts maxRedirects w
           = fetchWithRedirect h (u 1) opts (js_minus maxRedirects 1)
               (resume res (w\<lparr>requests := requests w @ [(u 0, opts)]\<rparr>))"
proof -
  from assms(1) obtain res where
    res: "throws h (u 0) opts = None" "answers h (requests w) (u 0) opts = Response res"
      "300 \<le> res_statusCode res" "res_statusCode res < 400"
      "u (Suc 0) \<noteq> []" "location res = Some (u (Suc 0))"
    by (auto simp: redirected_def split: reply.splits)
  have "fetchWithRedirect h (u 0) opts maxRedirects w
           = fetchWithRedirect h (u 1) opts (js_minus maxRedirects 1)
               (resume res (w\<lparr>requests := requests w @ [(u 0, opts)]\<rparr>))"
    by (subst fetchWithRedirect.simps) (simp add: get_def res assms(2))
  then show ?thesis ..
qed

text \<open>With an integer budget from 0 to \<open>2 ^ 53\<close> the fetcher always settles.\<close>

lemma fetchWithRedirect_returns:
  "int n \<le> 2 ^ 53 \<Longrightarrow> \<exists>r. fetchWithRedirect h url opts (int n) w = Some r"
proof (induction n arbitrary: url w)
  case 0
  show ?case
    by (subst fetchWithRedirect.simps)
       (simp add: get_def split: prod.splits reply.splits sum.splits option.splits)
next
  case (Suc n)
  have "js_minus (int (Suc n)) 1 = int n"
    using Suc.prems js_minus_one[of "int (Suc n)"] by simp
  moreover have "int n \<le> 2 ^ 53" using Suc.prems by simp
  ultimately show ?case using Suc.IH
    by (subst fetchWithRedirect.simps)
       (simp add: get_def split: prod.splits reply.splits sum.splits option.splits
          del: of_nat_Suc)
qed

text \<open>
  When the first \<open>n + 1\<close> requests of the chain are redirected, a budget \<open>n\<close> is used
  up after those \<open>n + 1\<close> requests, each of whose responses is discarded.
\<close>

lemma fetchWithRedirect_loop:
  assumes "\<forall>i\<le>n. redirected h opts (requests w) u i" and "int n \<le> 2 ^ 53"
  shows "\<exists>w'. fetchWithRedirect h (u 0) opts (int n) w = Some (Inl TooManyRedirects, w')
           \<and> requests w' = requests w @ chain_requests opts u (Suc n)
           \<and> length (resumed w') = length (resumed w) + Suc n
           \<and> files w' = files w"
  using assms
proof (induction n arbitrary: u w)
  case 0
  then have "redirected h opts (requests w) u 0" by simp
  then show ?case
    by (subst fetchWithRedirect.simps)
       (auto simp: redirected_def get_def resume_def chain_requests_def split: reply.splits)
next
  case (Suc n)
  from Suc.prems(1) have r0: "redirected h opts (requests w) u 0" by blast
  have ne: "int (Suc n) \<noteq> 0" by simp
  from redirected_step[OF r0 ne] obtain res where
    step: "fetchWithRedirect h (u 0) opts (int (Suc n)) w
           = fetchWithRedirect h (u 1) opts (js_minus (int (Suc n)) 1)
               (resume res (w\<lparr>requests := requests w @ [(u 0, opts)]\<rparr>))" ..
  let ?w1 = "resume res (w\<lparr>requests := requests w @ [(u 0, opts)]\<rparr>)"
  have dec: "js_minus (int (Suc n)) 1 = int n"
    using Suc.prems(2) js_minus_one[of "int (Suc n)"] by simp
  have rq: "requests ?w1 = requests w @ [(u 0, opts)]" by (simp add: resume_def)
  have "\<forall>i\<le>n. redirected h opts (requests ?w1) (\<lambda>j. u (Suc j)) i"
    using Suc.prems(1) unfolding rq by (simp add: redirected_Suc[symmetric])
  moreover have "int n \<le> 2 ^ 53" using Suc.prems(2) by simp
  ultimately obtain w' where
    w': "fetchWithRedirect h (u (Suc 0)) opts (int n) ?w1 = Some (Inl TooManyRedirects, w')"
      "requests w' = requests ?w1 @ chain_requests opts (\<lambda>j. u (Suc j)) (Suc n)"
      "length (resumed w') = length (resumed ?w1) + Suc n"
      "files w' = files ?w1"
    using Suc.IH[of ?w1 "\<lambda>j. u (Suc j)"] by blast
  have "fetchWithRedirect h (u 0) opts (int (Suc n)) w = Some (Inl TooManyRedirects, w')"
    unfolding step dec using w'(1) by simp
  moreover have "requests w' = requests w @ chain_requests opts u (Suc (Suc n))"
    using w'(2) rq by (simp add: chain_requests_Suc[of opts u "Suc n"])
  moreover have "length (resumed w') = length (resumed w) + Suc (Suc n)"
    using w'(3) by (simp add: resume_def)
  moreover have "files w' = files w"
    using w'(4) by (simp add: resume_def)
  ultimately show ?case by blast
qed

text \<open>
  When the chain is redirected \<open>k\<close> times, the budget is not 0 at any of these
  redirects, and the next request is answered by a response that is not followed, that
  response is what the fetcher resolves to.
\<close>

lemma budget_after_0 [simp]: "budget_after b 0 = b"
  by (simp add: budget_after_def)

lemma budget_after_Suc: "budget_after b (Suc i) = budget_after (js_minus b 1) i"
  unfolding budget_after_def by (simp only: funpow_Suc_right comp_apply)

lemma budget_after_exact:
  "int i \<le> b \<Longrightarrow> b \<le> 2 ^ 53 \<Longrightarrow> budget_after b i = b - int i"
proof (induction i arbitrary: b)
  case 0
  show ?case by simp
next
  case (Suc i)
  from Suc.prems have "js_minus b 1 = b - 1" by (intro js_minus_one) simp_all
  moreover from Suc.prems have "budget_after (b - 1) i = b - 1 - int i"
    by (intro Suc.IH) simp_all
  ultimately show ?case by (simp add: budget_after_Suc)
qed

lemma fetchWithRedirect_final:
  assumes "\<forall>i<k. redirected h opts (requests w) u i"
    and "throws h (u k) opts = None"
    and "answers h (requests w @ chain_requests opts u k) (u k) opts = Response res"
    and "\<not> (300 \<le> res_statusCode res \<and> res_statusCode res < 400 \<and> truthy (location res))"
    and "\<forall>i<k. budget_after maxRedirects i \<noteq> 0"
  shows "\<exists>w'. fetchWithRedirect h (u 0) opts maxRedirects w
             = Some (Inr \<lparr>statusCode = res_statusCode res, headers = res_headers res,
                          bodyStream = res\<rparr>, w')
           \<and> requests w' = requests w @ chain_requests opts u (Suc k)
           \<and> length (resumed w') = length (resumed w) + k
           \<and> files w' = files w"
  using assms
proof (induction k arbitrary: u w maxRedirects)
  case 0
  then show ?case
    by (subst fetchWithRedirect.simps) (auto simp: get_def chain_requests_def)
next
  case (Suc k)
  from Suc.prems(1) have r0: "redirected h opts (requests w) u 0" by blast
  have ne: "maxRedirects \<noteq> 0" using Suc.prems(5) by force
  from redirected_step[OF r0 ne] obtain r where
    step: "fetchWithRedirect h (u 0) opts maxRedirects w
           = fetchWithRedirect h (u 1) opts (js_minus maxRedirects 1)
               (resume r (w\<lparr>requests := requests w @ [(u 0, opts)]\<rparr>))" ..
  let ?w1 = "resume r (w\<lparr>requests := requests w @ [(u 0, opts)]\<rparr>)"
  have rq: "requests ?w1 = requests w @ [(u 0, opts)]" by (simp add: resume_def)
  have a: "\<forall>i<k. redirected h opts (requests ?w1) (\<lambda>j. u (Suc j)) i"
    using Suc.prems(1) unfolding rq by (simp add: redirected_Suc[symmetric])
  have b: "answers h (requests ?w1 @ chain_requests opts (\<lambda>j. u (Suc j)) k) (u (Suc k)) opts
             = Response res"
    using Suc.prems(3) unfolding rq by (simp add: chain_requests_Suc[of opts u k])
  have c: "\<forall>i<k. budget_after (js_minus maxRedirects 1) i \<noteq> 0"
    using Suc.prems(5) by (simp add: budget_after_Suc[symmetric])
  from Suc.IH[of ?w1 "\<lambda>j. u (Suc j)" "js_minus maxRedirects 1",
      OF a Suc.prems(2) b Suc.prems(4) c]
  obtain w' where
    w': "fetchWithRedirect h (u (Suc 0)) opts (js_minus maxRedirects 1) ?w1
           = Some (Inr \<lparr>statusCode = res_statusCode res, headers = res_headers res,
                        bodyStream = res\<rparr>, w')"
      "requests w' = requests ?w1 @ chain_requests opts (\<lambda>j. u (Suc j)) (Suc k)"
      "length (resumed w') = length (resumed ?w1) + k"
      "files w' = files ?w1"
    by blast
  have "fetchWithRedirect h (u 0) opts maxRedirects w
          = Some (Inr \<lparr>statusCode = res_statusCode res, headers = res_headers res,
                       bodyStream = res\<rparr>, w')"
    unfolding step using w'(1) by simp
  moreover have "requests w' = requests w @ chain_requests opts u (Suc (Suc k))"
    using w'(2) rq by (simp add: chain_requests_Suc[of opts u "Suc k"])
  moreover have "length (resumed w') = length (resumed w) + Suc k"
    using w'(3) by (simp add: resume_def)
  moreover have "files w' = files w"
    using w'(4) by (simp add: resume_def)
  ultimately show ?case by blast
qed

text \<open>
  Partial correctness: induction over the unfolding of the recursive definition, for any
  budget and any server.
\<close>

lemmas fetchWithRedirect_induct =
  fetchWithRedirect.raw_induct[rotated, consumes 1, case_names step]

lemma fetchWithRedirect_trace:
  assumes "fetchWithRedirect h url opts maxRedirects w = Some y"
  shows "\<exists>rest. requests (snd y) = requests w @ rest
           \<and> (\<forall>q \<in> set rest. snd q = opts)
           \<and> (\<forall>r. fst y = Inr r \<longrightarrow>
                 rest \<noteq> []
                 \<and> answers h (butlast (requests (snd y))) (fst (last (requests (snd y)))) opts
                   = Response (bodyStream r)
                 \<and> statusCode r = res_statusCode (bodyStream r)
                 \<and> headers r = res_headers (bodyStream r)
                 \<and> \<not> (300 \<le> statusCode r \<and> statusCode r < 400
                        \<and> truthy (location (bodyStream r))))"
  using assms
proof (induct rule: fetchWithRedirect_induct)
  case (step f h url opts maxRedirects w y)
  note IH = step(1) and body = step(2)
  show ?case
  proof (cases "throws h url opts")
    case (Some code)
    with body show ?thesis by (auto simp: get_def)
  next
    case None
    show ?thesis
    proof (cases "answers h (requests w) url opts")
      case (ErrorEvent err)
      with body None show ?thesis by (auto simp: get_def)
    next
      case (Response res)
      show ?thesis
      proof (cases "300 \<le> res_statusCode res \<and> res_statusCode res < 400
                     \<and> truthy (location res)")
        case False
        with body None Response show ?thesis by (auto simp: get_def)
      next
        case True
        show ?thesis
        proof (cases "maxRedirects = 0")
          case t: True
          with body None Response True show ?thesis by (auto simp: get_def resume_def)
        next
          case f: False
          with body None Response True
          have "f h (the (location res)) opts (js_minus maxRedirects 1)
                  (resume res (w\<lparr>requests := requests w @ [(url, opts)]\<rparr>)) = Some y"
            by (simp add: get_def)
          from IH[OF this] show ?thesis
            by (auto simp: resume_def)
        qed
      qed
    qed
  qed
qed

text \<open>
  A budget that the decrement leaves unchanged is never used up: against a server that
  redirects every request to a URL that \<open>https.get\<close> accepts, the fetcher does not
  settle.
\<close>

lemma fetchWithRedirect_stuck:
  assumes "fetchWithRedirect h url opts maxRedirects w = Some y"
  shows "\<not> ((\<forall>history v. throws h v opts = None \<longrightarrow>
               (\<exists>res. answers h history v opts = Response res
                  \<and> 300 \<le> res_statusCode res \<and> res_statusCode res < 400
                  \<and> truthy (location res) \<and> throws h (the (location res)) opts = None))
            \<and> throws h url opts = None
            \<and> maxRedirects \<noteq> 0 \<and> js_minus maxRedirects 1 = maxRedirects)"
  using assms
proof (induct rule: fetchWithRedirect_induct)
  case (step f h url opts maxRedirects w y)
  show ?case
  proof
    assume a: "(\<forall>history v. throws h v opts = None \<longrightarrow>
               (\<exists>res. answers h history v opts = Response res
                  \<and> 300 \<le> res_statusCode res \<and> res_statusCode res < 400
                  \<and> truthy (location res) \<and> throws h (the (location res)) opts = None))
            \<and> throws h url opts = None
            \<and> maxRedirects \<noteq> 0 \<and> js_minus maxRedirects 1 = maxRedirects"
    then obtain res where
      res: "answers h (requests w) url opts = Response res" "300 \<le> res_statusCode res"
        "res_statusCode res < 400" "truthy (location res)"
        "throws h (the (location res)) opts = None" by blast
    from step(2) a res
    have "f h (the (location res)) opts maxRedirects
            (resume res (w\<lparr>requests := requests w @ [(url, opts)]\<rparr>)) = Some y"
      by (simp add: get_def)
    from step(1)[OF this] a res(5) show False by blast
  qed
qed

text \<open>
  Claim C4, as stated: if every response in the chain is a 3xx with a location header,
  the fetch fails with the too-many-redirects error after 6 requests, and the fetcher
  settles for every hop budget that is at least 0. Neither holds as stated. The location
  is passed to \<open>https.get\<close> as it is: when the server answers with the relative location
  \<open>/loop\<close>, the second call throws, and the fetch fails with that \<open>TypeError\<close> after one
  request. And the budget \<open>2 ^ 53 + 4\<close> is a double that the decrement leaves unchanged:
  against a server that always redirects, the fetch never settles.
\<close>

theorem fetchWithRedirect_loop_other_outcomes:
  "fetchWithRedirect relative_loop_server ''https://start.example/''
       \<lparr>opt_headers = [(''Accept'', ''*/*'')]\<rparr> 5 empty_world
     = Some (Inl (TypeError ''ERR_INVALID_URL''),
             \<lparr>requests = [(''https://start.example/'', \<lparr>opt_headers = [(''Accept'', ''*/*'')]\<rparr>)],
              resumed = [\<lparr>res_statusCode = 302, res_headers = [(''location'', ''/loop'')],
                          res_body = []\<rparr>],
              files = Map.empty\<rparr>)
   \<and> fetchWithRedirect redirect_loop_server ''https://start.example/''
       \<lparr>opt_headers = [(''Accept'', ''*/*'')]\<rparr> 9007199254740996 empty_world
     = None"
proof
  show "fetchWithRedirect relative_loop_server ''https://start.example/''
       \<lparr>opt_headers = [(''Accept'', ''*/*'')]\<rparr> 5 empty_world
     = Some (Inl (TypeError ''ERR_INVALID_URL''),
             \<lparr>requests = [(''https://start.example/'', \<lparr>opt_headers = [(''Accept'', ''*/*'')]\<rparr>)],
              resumed = [\<lparr>res_statusCode = 302, res_headers = [(''location'', ''/loop'')],
                          res_body = []\<rparr>],
              files = Map.empty\<rparr>)"
    by (simp add: fetchWithRedirect.simps relative_loop_server_def https_only_def
          empty_world_def get_def location_def resume_def)
next
  have stuck: "js_minus 9007199254740996 1 = 9007199254740996"
    by (simp add: js_minus_def round_double_def Let_def bit_length_numeral)
  show "fetchWithRedirect redirect_loop_server ''https://start.example/''
       \<lparr>opt_headers = [(''Accept'', ''*/*'')]\<rparr> 9007199254740996 empty_world
     = None"
  proof (cases "fetchWithRedirect redirect_loop_server ''https://start.example/''
       \<lparr>opt_headers = [(''Accept'', ''*/*'')]\<rparr> 9007199254740996 empty_world")
    case None
    then show ?thesis .
  next
    case (Some y)
    from fetchWithRedirect_stuck[OF Some] stuck show ?thesis
      by (simp add: redirect_loop_server_def https_only_def location_def)
  qed
qed

text \<open>
  Claim C4, amended: the fetcher settles for every integer hop budget from 0 to
  \<open>2 ^ 53\<close>, whatever the server does. If each of the first \<open>n + 1\<close> requests of the
  chain is made by \<open>https.get\<close> and answered by a 3xx whose location header is not empty,
  a budget \<open>n\<close> in that range fails with the too-many-redirects error after exactly \<open>n\<close>
  follows, that is \<open>n + 1\<close> requests: 5 follows and 6 requests with the default budget 5,
  which is the budget \<open>downloadCRX\<close> fetches with.
\<close>

theorem fetchWithRedirect_redirect_loop:
  "(\<forall>n. 0 \<le> n \<and> n \<le> 2 ^ 53 \<longrightarrow> (\<exists>r. fetchWithRedirect h url opts n w = Some r))
   \<and> (\<forall>n. 0 \<le> n \<and> n \<le> 2 ^ 53 \<and> u 0 = url
            \<and> (\<forall>i\<le>nat n. redirected h opts (requests w) u i)
          \<longrightarrow> (\<exists>w'. fetchWithRedirect h url opts n w = Some (Inl TooManyRedirects, w')
                 \<and> requests w' = requests w @ chain_requests opts u (nat n + 1)))
   \<and> (u 0 = url \<and> (\<forall>i\<le>5. redirected h opts (requests w) u i)
          \<longrightarrow> (\<exists>w'. fetchWithRedirect h url opts 5 w = Some (Inl TooManyRedirects, w')
                 \<and> requests w' = requests w @ chain_requests opts u 6
                 \<and> length (requests w') = length (requests w) + 6))
   \<and> (v 0 = downloadCRX_url extensionId chromeVersion
        \<and> (\<forall>i\<le>5. redirected h (downloadCRX_options chromeVersion) (requests w) v i)
          \<longrightarrow> (\<exists>w'. downloadCRX h extensionId chromeVersion outputFilename w
                        = Some (Inl TooManyRedirects, w')
                 \<and> requests w' = requests w @ chain_requests (downloadCRX_options chromeVersion) v 6
                 \<and> files w' = files w))"
proof (intro conjI impI allI)
  fix n :: int
  assume "0 \<le> n \<and> n \<le> 2 ^ 53"
  then show "\<exists>r. fetchWithRedirect h url opts n w = Some r"
    using fetchWithRedirect_returns[of "nat n" h url opts w] by simp
next
  fix n :: int
  assume a: "0 \<le> n \<and> n \<le> 2 ^ 53 \<and> u 0 = url
            \<and> (\<forall>i\<le>nat n. redirected h opts (requests w) u i)"
  then have "int (nat n) \<le> 2 ^ 53" "int (nat n) = n" by simp_all
  with a fetchWithRedirect_loop[of "nat n" h opts w u]
  show "\<exists>w'. fetchWithRedirect h url opts n w = Some (Inl TooManyRedirects, w')
                 \<and> requests w' = requests w @ chain_requests opts u (nat n + 1)"
    by auto
next
  assume a: "u 0 = url \<and> (\<forall>i\<le>5. redirected h opts (requests w) u i)"
  with fetchWithRedirect_loop[of 5 h opts w u]
  show "\<exists>w'. fetchWithRedirect h url opts 5 w = Some (Inl TooManyRedirects, w')
                 \<and> requests w' = requests w @ chain_requests opts u 6
                 \<and> length (requests w') = length (requests w) + 6"
    by (auto simp: chain_requests_def)
next
  assume a: "v 0 = downloadCRX_url extensionId chromeVersion
        \<and> (\<forall>i\<le>5. redirected h (downloadCRX_options chromeVersion) (requests w) v i)"
  with fetchWithRedirect_loop[of 5 h "downloadCRX_options chromeVersion" w v]
  obtain w' where
    "fetchWithRedirect h (downloadCRX_url extensionId chromeVersion)
       (downloadCRX_options chromeVersion) 5 w = Some (Inl TooManyRedirects, w')"
    "requests w' = requests w @ chain_requests (downloadCRX_options chromeVersion) v 6"
    "files w' = files w"
    by auto
  then show "\<exists>w'. downloadCRX h extensionId chromeVersion outputFilename w
                        = Some (Inl TooManyRedirects, w')
                 \<and> requests w' = requests w @ chain_requests (downloadCRX_options chromeVersion) v 6
                 \<and> files w' = files w"
    by (simp add: downloadCRX_def)
qed


theorem fetchWithRedirect_redirect_loop_witness:
  "(\<exists>w'. fetchWithRedirect ping_pong_server ''https://a.example/''
            \<lparr>opt_headers = [(''Accept'', ''*/*'')]\<rparr> 5 empty_world
          = Some (Inl TooManyRedirects, w')
        \<and> requests w'
          = [(''https://a.example/'', \<lparr>opt_headers = [(''Accept'', ''*/*'')]\<rparr>),
             (''https://b.example/'', \<lparr>opt_headers = [(''Accept'', ''*/*'')]\<rparr>),
             (''https://a.example/'', \<lparr>opt_headers = [(''Accept'', ''*/*'')]\<rparr>),
             (''https://b.example/'', \<lparr>opt_headers = [(''Accept'', ''*/*'')]\<rparr>),
             (''https://a.example/'', \<lparr>opt_headers = [(''Accept'', ''*/*'')]\<rparr>),
             (''https://b.example/'', \<lparr>opt_headers = [(''Accept'', ''*/*'')]\<rparr>)])
   \<and> (\<exists>w'. downloadCRX redirect_loop_server ''idpfgkgogjjgklefnkjdpghkifbjenap''
            ''114.0.5735.133'' ''extensions/a.crx'' empty_world
          = Some (Inl TooManyRedirects, w')
        \<and> length (requests w') = 6 \<and> files w' = Map.empty)"
proof -
  let ?opts = "\<lparr>opt_headers = [(''Accept'', ''*/*'')]\<rparr>"
  let ?u = "\<lambda>i::nat. if even i then ''https://a.example/'' else ''https://b.example/''"
  let ?v = "\<lambda>i::nat. if i = 0
              then downloadCRX_url ''idpfgkgogjjgklefnkjdpghkifbjenap'' ''114.0.5735.133''
              else ''https://loop.example/crx''"
  have u: "\<forall>i\<le>5. redirected ping_pong_server ?opts (requests empty_world) ?u i"
    by (simp add: redirected_def ping_pong_server_def https_only_def location_def)
  have v: "\<forall>i\<le>5. redirected redirect_loop_server (downloadCRX_options ''114.0.5735.133'')
                    (requests empty_world) ?v i"
    by (simp add: redirected_def redirect_loop_server_def https_only_def location_def
          downloadCRX_url_def)
  have a: "\<exists>w'. fetchWithRedirect ping_pong_server ''https://a.example/'' ?opts 5 empty_world
                = Some (Inl TooManyRedirects, w')
              \<and> requests w' = requests empty_world @ chain_requests ?opts ?u 6
              \<and> length (requests w') = length (requests empty_world) + 6"
    using u fetchWithRedirect_redirect_loop[where h = ping_pong_server and url = "''https://a.example/''"
        and opts = ?opts and w = empty_world and u = ?u]
    by simp
  have b: "\<exists>w'. downloadCRX redirect_loop_server ''idpfgkgogjjgklefnkjdpghkifbjenap''
                  ''114.0.5735.133'' ''extensions/a.crx'' empty_world
                = Some (Inl TooManyRedirects, w')
              \<and> requests w' = requests empty_world
                   @ chain_requests (downloadCRX_options ''114.0.5735.133'') ?v 6
              \<and> files w' = files empty_world"
    using v fetchWithRedirect_redirect_loop[where h = redirect_loop_server and w = empty_world and v = ?v
        and extensionId = "''idpfgkgogjjgklefnkjdpghkifbjenap''"
        and chromeVersion = "''114.0.5735.133''" and outputFilename = "''extensions/a.crx''"]
    by simp
  from a obtain w1 where w1:
    "fetchWithRedirect ping_pong_server ''https://a.example/'' ?opts 5 empty_world
       = Some (Inl TooManyRedirects, w1)"
    "requests w1 = requests empty_world @ chain_requests ?opts ?u 6" by blast
  from b obtain w2 where w2:
    "downloadCRX redirect_loop_server ''idpfgkgogjjgklefnkjdpghkifbjenap''
       ''114.0.5735.133'' ''extensions/a.crx'' empty_world = Some (Inl TooManyRedirects, w2)"
    "requests w2 = requests empty_world
       @ chain_requests (downloadCRX_options ''114.0.5735.133'') ?v 6"
    "files w2 = files empty_world" by blast
  have c: "[0..<6] = [0, 1, 2, 3, 4, 5::nat]" by (simp add: upt_rec)
  from w1 have "requests w1
          = [(''https://a.example/'', ?opts), (''https://b.example/'', ?opts),
             (''https://a.example/'', ?opts), (''https://b.example/'', ?opts),
             (''https://a.example/'', ?opts), (''https://b.example/'', ?opts)]"
    by (simp add: chain_requests_def c empty_world_def)
  moreover from w2 have "length (requests w2) = 6" "files w2 = Map.empty"
    by (simp_all add: chain_requests_def empty_world_def)
  ultimately show ?thesis using w1(1) w2(1) by blast
qed


text \<open>
  Claim C5: whenever the fetcher settles, every request it made carries the options,
  hence the headers, of the original call, and a result it resolves to is the response to
  the last request, with that response's status code and headers and the response itself
  as the body stream. And whenever a chain is redirected \<open>k\<close> times with the budget not
  used up, and then answered by a response that is not a redirect with a location, the
  fetcher does resolve, to that response as it is, whatever its status code; the requests
  made are those of the chain, all with the original options.
\<close>

theorem fetchWithRedirect_same_headers:
  "(\<forall>result w'. fetchWithRedirect h url opts maxRedirects w = Some (result, w') \<longrightarrow>
      (\<exists>rest. requests w' = requests w @ rest
         \<and> (\<forall>q \<in> set rest. snd q = opts)
         \<and> (\<forall>r. result = Inr r \<longrightarrow>
               rest \<noteq> []
               \<and> answers h (butlast (requests w')) (fst (last (requests w'))) opts
                   = Response (bodyStream r)
               \<and> statusCode r = res_statusCode (bodyStream r)
               \<and> headers r = res_headers (bodyStream r)
               \<and> \<not> (300 \<le> statusCode r \<and> statusCode r < 400
                      \<and> truthy (location (bodyStream r))))))
   \<and> (u 0 = url
        \<and> (\<forall>i<k. redirected h opts (requests w) u i)
        \<and> throws h (u k) opts = None
        \<and> answers h (requests w @ chain_requests opts u k) (u k) opts = Response res
        \<and> \<not> (300 \<le> res_statusCode res \<and> res_statusCode res < 400 \<and> truthy (location res))
        \<and> (\<forall>i<k. budget_after maxRedirects i \<noteq> 0)
      \<longrightarrow> (\<exists>w'. fetchWithRedirect h url opts maxRedirects w
                    = Some (Inr \<lparr>statusCode = res_statusCode res, headers = res_headers res,
                                 bodyStream = res\<rparr>, w')
             \<and> requests w' = requests w @ chain_requests opts u (Suc k)
             \<and> files w' = files w))"
proof (intro conjI impI allI)
  fix result w'
  assume "fetchWithRedirect h url opts maxRedirects w = Some (result, w')"
  from fetchWithRedirect_trace[OF this]
  show "\<exists>rest. requests w' = requests w @ rest
         \<and> (\<forall>q \<in> set rest. snd q = opts)
         \<and> (\<forall>r. result = Inr r \<longrightarrow>
               rest \<noteq> []
               \<and> answers h (butlast (requests w')) (fst (last (requests w'))) opts
                   = Response (bodyStream r)
               \<and> statusCode r = res_statusCode (bodyStream r)
               \<and> headers r = res_headers (bodyStream r)
               \<and> \<not> (300 \<le> statusCode r \<and> statusCode r < 400
                      \<and> truthy (location (bodyStream r))))"
    by simp
next
  assume a: "u 0 = url
        \<and> (\<forall>i<k. redirected h opts (requests w) u i)
        \<and> throws h (u k) opts = None
        \<and> answers h (requests w @ chain_requests opts u k) (u k) opts = Response res
        \<and> \<not> (300 \<le> res_statusCode res \<and> res_statusCode res < 400 \<and> truthy (location res))
        \<and> (\<forall>i<k. budget_after maxRedirects i \<noteq> 0)"
  then have "\<exists>w'. fetchWithRedirect h (u 0) opts maxRedirects w
             = Some (Inr \<lparr>statusCode = res_statusCode res, headers = res_headers res,
                          bodyStream = res\<rparr>, w')
           \<and> requests w' = requests w @ chain_requests opts u (Suc k)
           \<and> length (resumed w') = length (resumed w) + k
           \<and> files w' = files w"
    by (intro fetchWithRedirect_final) blast+
  with a show "\<exists>w'. fetchWithRedirect h url opts maxRedirects w
                    = Some (Inr \<lparr>statusCode = res_statusCode res, headers = res_headers res,
                                 bodyStream = res\<rparr>, w')
             \<and> requests w' = requests w @ chain_requests opts u (Suc k)
             \<and> files w' = files w"
    by auto
qed

theorem fetchWithRedirect_same_headers_witness:
  "(\<exists>w'. fetchWithRedirect two_hop_server ''https://start.example/''
            \<lparr>opt_headers = [(''User-Agent'', ''Chrome/114''), (''Accept'', ''*/*'')]\<rparr>
            5 empty_world
          = Some (Inr \<lparr>statusCode = 200,
                       headers = [(''content-type'', ''application/x-chrome-extension'')],
                       bodyStream = \<lparr>res_statusCode = 200,
                         res_headers = [(''content-type'', ''application/x-chrome-extension'')],
                         res_body = [0x43, 0x72, 0x32, 0x34]\<rparr>\<rparr>, w')
        \<and> requests w'
          = [(''https://start.example/'',
               \<lparr>opt_headers = [(''User-Agent'', ''Chrome/114''), (''Accept'', ''*/*'')]\<rparr>),
             (''https://cdn.example/signed'',
               \<lparr>opt_headers = [(''User-Agent'', ''Chrome/114''), (''Accept'', ''*/*'')]\<rparr>),
             (''https://cdn.example/signed'',
               \<lparr>opt_headers = [(''User-Agent'', ''Chrome/114''), (''Accept'', ''*/*'')]\<rparr>)])
   \<and> (\<exists>w'. fetchWithRedirect not_found_server ''https://start.example/''
            \<lparr>opt_headers = [(''User-Agent'', ''Chrome/114''), (''Accept'', ''*/*'')]\<rparr>
            5 empty_world
          = Some (Inr \<lparr>statusCode = 404, headers = [(''content-type'', ''text/html'')],
                       bodyStream = \<lparr>res_statusCode = 404,
                         res_headers = [(''content-type'', ''text/html'')],
                         res_body = [0x3C]\<rparr>\<rparr>, w')
        \<and> requests w'
          = [(''https://start.example/'',
               \<lparr>opt_headers = [(''User-Agent'', ''Chrome/114''), (''Accept'', ''*/*'')]\<rparr>),
             (''https://cdn.example/gone'',
               \<lparr>opt_headers = [(''User-Agent'', ''Chrome/114''), (''Accept'', ''*/*'')]\<rparr>)])"
proof -
  let ?opts = "\<lparr>opt_headers = [(''User-Agent'', ''Chrome/114''), (''Accept'', ''*/*'')]\<rparr>"
  let ?u = "\<lambda>i::nat. if i = 0 then ''https://start.example/'' else ''https://cdn.example/signed''"
  let ?v = "\<lambda>i::nat. if i = 0 then ''https://start.example/'' else ''https://cdn.example/gone''"
  have c: "[0..<3] = [0, 1, 2::nat]" "[0..<2] = [0, 1::nat]" by (simp_all add: upt_rec)
  have u: "\<forall>i<2. redirected two_hop_server ?opts (requests empty_world) ?u i"
    by (simp add: redirected_def two_hop_server_def https_only_def location_def
          chain_requests_def empty_world_def)
  have v: "\<forall>i<1. redirected not_found_server ?opts (requests empty_world) ?v i"
    by (simp add: redirected_def not_found_server_def https_only_def location_def
          chain_requests_def empty_world_def)
  have bud: "\<forall>i<2. budget_after 5 i \<noteq> 0" "\<forall>i<1. budget_after 5 i \<noteq> 0"
    by (simp_all add: budget_after_exact)
  have a: "\<exists>w'. fetchWithRedirect two_hop_server ''https://start.example/'' ?opts 5 empty_world
          = Some (Inr \<lparr>statusCode = 200,
                       headers = [(''content-type'', ''application/x-chrome-extension'')],
                       bodyStream = \<lparr>res_statusCode = 200,
                         res_headers = [(''content-type'', ''application/x-chrome-extension'')],
                         res_body = [0x43, 0x72, 0x32, 0x34]\<rparr>\<rparr>, w')
        \<and> requests w' = requests empty_world @ chain_requests ?opts ?u (Suc 2)
        \<and> files w' = files empty_world"
    using u bud(1) fetchWithRedirect_same_headers[where h = two_hop_server and url = "''https://start.example/''"
        and opts = ?opts and w = empty_world and u = ?u and k = 2 and maxRedirects = 5
        and res = "\<lparr>res_statusCode = 200,
                         res_headers = [(''content-type'', ''application/x-chrome-extension'')],
                         res_body = [0x43, 0x72, 0x32, 0x34]\<rparr>"]
    by (simp add: two_hop_server_def https_only_def location_def chain_requests_def
          empty_world_def c)
  have b: "\<exists>w'. fetchWithRedirect not_found_server ''https://start.example/'' ?opts 5 empty_world
          = Some (Inr \<lparr>statusCode = 404, headers = [(''content-type'', ''text/html'')],
                       bodyStream = \<lparr>res_statusCode = 404,
                         res_headers = [(''content-type'', ''text/html'')],
                         res_body = [0x3C]\<rparr>\<rparr>, w')
        \<and> requests w' = requests empty_world @ chain_requests ?opts ?v (Suc 1)
        \<and> files w' = files empty_world"
    using v bud(2) fetchWithRedirect_same_headers[where h = not_found_server and url = "''https://start.example/''"
        and opts = ?opts and w = empty_world and u = ?v and k = 1 and maxRedirects = 5
        and res = "\<lparr>res_statusCode = 404, res_headers = [(''content-type'', ''text/html'')],
                         res_body = [0x3C]\<rparr>"]
    by (simp add: not_found_server_def https_only_def location_def chain_requests_def
          empty_world_def c)
  from a obtain w1 where
    "fetchWithRedirect two_hop_server ''https://start.example/'' ?opts 5 empty_world
          = Some (Inr \<lparr>statusCode = 200,
                       headers = [(''content-type'', ''application/x-chrome-extension'')],
                       bodyStream = \<lparr>res_statusCode = 200,
                         res_headers = [(''content-type'', ''application/x-chrome-extension'')],
                         res_body = [0x43, 0x72, 0x32, 0x34]\<rparr>\<rparr>, w1)"
    "requests w1 = requests empty_world @ chain_requests ?opts ?u (Suc 2)" by blast
  moreover from b obtain w2 where
    "fetchWithRedirect not_found_server ''https://start.example/'' ?opts 5 empty_world
          = Some (Inr \<lparr>statusCode = 404, headers = [(''content-type'', ''text/html'')],
                       bodyStream = \<lparr>res_statusCode = 404,
                         res_headers = [(''content-type'', ''text/html'')],
                         res_body = [0x3C]\<rparr>\<rparr>, w2)"
    "requests w2 = requests empty_world @ chain_requests ?opts ?v (Suc 1)" by blast
  ultimately show ?thesis
    by (simp add: chain_requests_def empty_world_def c)
qed

section \<open>Conversion\<close>

text \<open>
  Claim C6: if the parser fails on the container file that was written, the conversion
  fails with the parser's error and leaves the world as it was: no archive file is
  written, and the container file stays in place.
\<close>

theorem convertCRXtoZIP_parse_failure:
  assumes "files w crxPath = Some buf" and "getZipStartOffset buf = Inl e"
  shows "convertCRXtoZIP crxPath zipPath w = (Inl e, w)"
  using assms by (simp add: convertCRXtoZIP_def)

theorem convertCRXtoZIP_parse_failure_witness:
  "convertCRXtoZIP ''a.crx'' ''a.zip''
     (empty_world\<lparr>files := [''a.crx'' \<mapsto> [0x43, 0x72, 0x32, 0x34, 7, 0, 0, 0]]\<rparr>)
    = (Inl (UnsupportedCRXVersion 7),
       empty_world\<lparr>files := [''a.crx'' \<mapsto> [0x43, 0x72, 0x32, 0x34, 7, 0, 0, 0]]\<rparr>)"
  using convertCRXtoZIP_parse_failure
    [of "empty_world\<lparr>files := [''a.crx'' \<mapsto> [0x43, 0x72, 0x32, 0x34, 7, 0, 0, 0]]\<rparr>"
      "''a.crx''" "[0x43, 0x72, 0x32, 0x34, 7, 0, 0, 0]" "UnsupportedCRXVersion 7" "''a.zip''"]
  by (simp add: getZipStartOffset_def toString_ascii_def readUInt32LE_def char_of_eq_iff)

end
